theory Spec2Isabelle
  imports Complex_Main "HOL-Library.Sublist" "HOL-Library.Char_ord" "HOL-Library.List_Lexorder"
begin

section \<open>Service desk automation: ticket intake and disposition\<close>

text \<open>
  Shallow embedding of \<^verbatim>\<open>src/project2_service_desk.py\<close>: the class
  \<^verbatim>\<open>ServiceDeskAutomation\<close> and the route \<^verbatim>\<open>create_ticket\<close>.

  Modelling decisions, each local to the place where it is used:
  \<^item> a Python \<^verbatim>\<open>str\<close> is a \<^typ>\<open>string\<close> whose characters are the code points
    0..255 (Latin-1); texts with code points beyond 255 are outside the model;
  \<^item> the three string enumerations are datatypes;
  \<^item> the Redis client, the trained classifier and the chat-completion service are
    external: the cache is an explicit store threaded through the calls, the classifier
    and the completion service are function parameters whose failure is a value;
  \<^item> an exception of the source is the \<open>Inl\<close> branch of a sum.
\<close>

subsection \<open>Enumerations\<close>

datatype priority = LOW | MEDIUM | HIGH | CRITICAL

datatype status = NEW | IN_PROGRESS | RESOLVED | CLOSED | ESCALATED

datatype category = HARDWARE | SOFTWARE | NETWORK | ACCESS | EMAIL | OTHER

subsection \<open>Strings: \<^verbatim>\<open>str.lower()\<close> and the \<^verbatim>\<open>in\<close> operator\<close>

text \<open>
  \<^verbatim>\<open>str.lower()\<close> on the code points 0..255: the letters A..Z and the Latin-1
  capitals 0xC0..0xDE (without the multiplication sign 0xD7) move up by 32; every other
  code point of that range is left alone.
\<close>

definition lower_char :: "char \<Rightarrow> char" where
  "lower_char c =
     (let n = (of_char c :: nat)
      in if (65 \<le> n \<and> n \<le> 90) \<or> (192 \<le> n \<and> n \<le> 222 \<and> n \<noteq> 215)
         then char_of (n + 32) else c)"

definition lower :: "string \<Rightarrow> string" where
  "lower s = map lower_char s"

text \<open>
  \<^verbatim>\<open>w in t\<close> for two strings: \<open>w\<close> occurs in \<open>t\<close> as a contiguous block. The
  search tries every start position from the left.
\<close>

fun str_in :: "string \<Rightarrow> string \<Rightarrow> bool" where
  "str_in w [] = (w = [])"
| "str_in w (c # cs) = (prefix w (c # cs) \<or> str_in w cs)"

text \<open>\<^verbatim>\<open>any(word in text for word in words)\<close>.\<close>

definition any_in :: "string list \<Rightarrow> string \<Rightarrow> bool" where
  "any_in words t = list_ex (\<lambda>word. str_in word t) words"

subsection \<open>Priority classifier: \<^verbatim>\<open>_determine_priority\<close>\<close>

definition critical_keywords :: "string list" where
  "critical_keywords =
     [''urgent'', ''critical'', ''emergency'', ''down'', ''crashed'', ''broken'', ''asap'']"

definition high_keywords :: "string list" where
  "high_keywords = [''important'', ''quickly'', ''soon'', ''cannot work'', ''blocked'']"

definition medium_keywords :: "string list" where
  "medium_keywords = [''issue'', ''problem'', ''error'', ''help'']"

definition determine_priority :: "string \<Rightarrow> priority" where
  "determine_priority text =
     (let text_lower = lower text
      in if any_in critical_keywords text_lower then CRITICAL
         else if any_in high_keywords text_lower then HIGH
         else if any_in medium_keywords text_lower then MEDIUM
         else LOW)"

subsection \<open>Failures\<close>

text \<open>
  The exceptions of the source that a caller can observe: the classifier is unavailable,
  the completion service fails (caught inside \<^verbatim>\<open>_generate_ai_resolution\<close>),
  \<^verbatim>\<open>min()\<close> of an empty roster, and the first element of an empty list.
\<close>

datatype error = ClassificationUnavailable | ResolutionCapabilityError | ValueError | IndexError

subsection \<open>Tickets, requests, responses\<close>

text \<open>
  The dictionary \<^verbatim>\<open>new_ticket\<close> of \<^verbatim>\<open>create_ticket\<close>. The keys
  \<^verbatim>\<open>resolution\<close>, \<^verbatim>\<open>auto_resolved\<close> and \<^verbatim>\<open>assignee\<close> are added
  later or never: an absent key is \<open>None\<close>.
\<close>

record ticket =
  ticket_id :: nat
  title :: string
  description :: string
  category :: category
  priority :: priority
  status :: status
  user_email :: string
  created_at :: nat
  resolution :: "string option"
  auto_resolved :: "nat option"
  assignee :: "string option"

record ticket_create =
  req_title :: string
  req_description :: string
  req_user_email :: string

record ticket_response =
  resp_id :: nat
  resp_title :: string
  resp_category :: category
  resp_priority :: priority
  resp_status :: status
  resp_assignee :: "string option"
  resp_resolution :: "string option"
  estimated_resolution_time :: nat

record classification =
  cls_category :: category
  cls_priority :: priority
  cls_confidence :: rat

subsection \<open>The world outside: cache and completion service\<close>

text \<open>
  The Redis store maps a key to a value and the time at which it expires. The key
  \<^verbatim>\<open>f"resolution:{category}:{title[:50]}"\<close> is the pair of its two variable parts.
  \<open>ai_calls\<close> logs, in order, every request sent to the completion service.
\<close>

type_synonym cache_key = "category \<times> string"

record world =
  redis :: "cache_key \<rightharpoonup> string \<times> nat"
  ai_calls :: "ticket list"

text \<open>
  What one intake reads from its surroundings: the trained classifier (label and
  confidence, or a failure), the completion service (text, or a failure), the time in
  seconds, the local hour of \<^verbatim>\<open>datetime.now()\<close>, and the random identifier.
\<close>

record env =
  classifier :: "string \<Rightarrow> error + category \<times> rat"
  completion :: "ticket \<Rightarrow> error + string"
  clock :: nat
  clock_hour :: nat
  fresh_id :: nat

definition redis_get :: "world \<Rightarrow> nat \<Rightarrow> cache_key \<Rightarrow> string option" where
  "redis_get w now k =
     (case redis w k of
        None \<Rightarrow> None
      | Some (v, expiry) \<Rightarrow> if now < expiry then Some v else None)"

definition redis_setex :: "world \<Rightarrow> nat \<Rightarrow> cache_key \<Rightarrow> nat \<Rightarrow> string \<Rightarrow> world" where
  "redis_setex w now k ttl v = w\<lparr>redis := (redis w)(k \<mapsto> (v, now + ttl))\<rparr>"

text \<open>Truth value of an optional string: \<^verbatim>\<open>None\<close> and the empty string are false.\<close>

fun truthy :: "string option \<Rightarrow> bool" where
  "truthy None = False"
| "truthy (Some s) = (s \<noteq> [])"

subsection \<open>Category and priority: \<^verbatim>\<open>classify_ticket\<close>\<close>

definition classify_ticket ::
  "(string \<Rightarrow> error + category \<times> rat) \<Rightarrow> string \<Rightarrow> string \<Rightarrow> error + classification" where
  "classify_ticket clf ttl descr =
     (let combined_text = ttl @ '' '' @ descr
      in case clf combined_text of
           Inl err \<Rightarrow> Inl err
         | Inr (cat, confidence) \<Rightarrow>
             Inr \<lparr>cls_category = cat,
                  cls_priority = determine_priority combined_text,
                  cls_confidence = confidence\<rparr>)"

subsection \<open>Knowledge base\<close>

text \<open>
  The resolution texts are triple-quoted literals: a newline, every line indented by
  sixteen blanks, and the indentation of the closing quotes at the end.
\<close>

definition indent :: string where
  "indent = replicate 16 (CHR '' '')"

definition text_block :: "string list \<Rightarrow> string" where
  "text_block ls = [CHR 0x0A] @ concat (map (\<lambda>l. indent @ l @ [CHR 0x0A]) ls) @ indent"

type_synonym kb_entry = "string \<times> string list \<times> string"

definition password_reset_resolution :: string where
  "password_reset_resolution = text_block
     [''Your password has been reset. Please follow these steps:'',
      ''1. Check your email for the password reset link'',
      ''2. Click the link and create a new password'',
      ''3. Use at least 8 characters with a mix of letters, numbers, and symbols'',
      ''4. Try logging in with your new password'',
      [],
      ''If you don'' @ [CHR 0x27] @ ''t receive the email within 5 minutes, check your spam folder.'']"

definition wifi_connection_resolution :: string where
  "wifi_connection_resolution = text_block
     [''To resolve WiFi connection issues:'',
      ''1. Restart your device'',
      ''2. Forget the network and reconnect'',
      ''3. Ensure you'' @ [CHR 0x27] @ ''re using the correct password'',
      ''4. Check if other devices can connect'',
      ''5. Move closer to the access point'',
      [],
      ''Network: CompanyWiFi'',
      ''Password: [Check with IT if needed]'']"

definition software_crash_resolution :: string where
  "software_crash_resolution = text_block
     [''To resolve application crashes:'',
      ''1. Close the application completely'',
      ''2. Restart your computer'',
      ''3. Check for software updates'',
      ''4. Clear application cache if possible'',
      ''5. Reinstall if the issue persists'',
      [],
      ''If this doesn'' @ [CHR 0x27] @ ''t resolve the issue, we'' @ [CHR 0x27]
        @ ''ll need to investigate further.'']"

definition knowledge_base :: "kb_entry list" where
  "knowledge_base =
     [(''PASSWORD_RESET'', [''password'', ''reset'', ''forgot'', ''locked''],
         password_reset_resolution),
      (''WIFI_CONNECTION'', [''wifi'', ''wireless'', ''connect'', ''network''],
         wifi_connection_resolution),
      (''SOFTWARE_CRASH'', [''crash'', ''error'', ''stopped working'', ''not responding''],
         software_crash_resolution)]"

text \<open>
  The loop over \<^verbatim>\<open>knowledge_base.items()\<close>, in insertion order: the first entry
  one of whose keywords occurs in the text gives the resolution.
\<close>

fun kb_scan :: "kb_entry list \<Rightarrow> string \<Rightarrow> string option" where
  "kb_scan [] ticket_text = None"
| "kb_scan ((issue_type, keywords, res) # rest) ticket_text =
     (if any_in keywords ticket_text then Some res else kb_scan rest ticket_text)"

subsection \<open>Completion fallback: \<^verbatim>\<open>_generate_ai_resolution\<close>\<close>

definition decline_phrases :: "string list" where
  "decline_phrases = [''contact it'', ''admin required'', ''none'']"

text \<open>
  Every call is logged before the service answers. A failure of the service is caught
  and gives \<^verbatim>\<open>None\<close>.
\<close>

definition generate_ai_resolution ::
  "(ticket \<Rightarrow> error + string) \<Rightarrow> ticket \<Rightarrow> world \<Rightarrow> string option \<times> world" where
  "generate_ai_resolution ai t w =
     (let w' = w\<lparr>ai_calls := ai_calls w @ [t]\<rparr>
      in case ai t of
           Inl err \<Rightarrow> (None, w')
         | Inr res \<Rightarrow>
             if any_in decline_phrases (lower res) then (None, w') else (Some res, w'))"

subsection \<open>Automatic resolution: \<^verbatim>\<open>auto_resolve_ticket\<close>\<close>

definition auto_resolve_ticket ::
  "(ticket \<Rightarrow> error + string) \<Rightarrow> nat \<Rightarrow> ticket \<Rightarrow> world \<Rightarrow> string option \<times> world" where
  "auto_resolve_ticket ai now t w =
     (let cache_key = (category t, take 50 (title t));
          cached_resolution = redis_get w now cache_key
      in if truthy cached_resolution then (cached_resolution, w)
         else
           let ticket_text = lower (title t @ '' '' @ description t)
           in case kb_scan knowledge_base ticket_text of
                Some res \<Rightarrow> (Some res, redis_setex w now cache_key 3600 res)
              | None \<Rightarrow>
                  if priority t \<in> set [LOW, MEDIUM] then
                    (case generate_ai_resolution ai t w of
                       (Some res, w1) \<Rightarrow>
                         if res \<noteq> [] then (Some res, redis_setex w1 now cache_key 3600 res)
                         else (None, w1)
                     | (None, w1) \<Rightarrow> (None, w1))
                  else (None, w))"

subsection \<open>Assignment: \<^verbatim>\<open>assign_ticket\<close>\<close>

record handler_info =
  categories :: "category list"
  max_tickets :: nat
  current_load :: nat

type_synonym roster = "(string \<times> handler_info) list"

definition team_skills :: roster where
  "team_skills =
     [(''john.doe@company.com'',
         \<lparr>categories = [HARDWARE, NETWORK], max_tickets = 10, current_load = 5\<rparr>),
      (''jane.smith@company.com'',
         \<lparr>categories = [SOFTWARE, EMAIL], max_tickets = 12, current_load = 3\<rparr>),
      (''bob.wilson@company.com'',
         \<lparr>categories = [ACCESS, NETWORK], max_tickets = 8, current_load = 7\<rparr>)]"

text \<open>
  \<^verbatim>\<open>current_load / max_tickets\<close> is the true division of two integers: the result is
  the 64-bit float nearest to the exact quotient, ties going to the even significand.
  The quotient is formed only where \<open>current_load < max_tickets\<close>, so it lies in
  \<open>[0, 1)\<close>. A float is modelled by the rational number it denotes.

  \<open>doublings n q\<close> counts how often \<open>q\<close> is doubled before it reaches
  \<open>[1/2, 1)\<close>, at most \<open>n\<close> times. With \<open>k\<close> doublings the floats around
  \<open>q\<close> are the multiples of \<open>2 ^ -(53 + k)\<close>; below \<open>2 ^ -1022\<close> (the
  subnormal range) the spacing stays at \<open>2 ^ -1074\<close>, hence the limit 1021.
\<close>

definition round_half_even :: "rat \<Rightarrow> int" where
  "round_half_even x =
     (let f = \<lfloor>x\<rfloor>; r = x - of_int f
      in if r < 1 / 2 then f
         else if 1 / 2 < r then f + 1
         else if even f then f else f + 1)"

fun doublings :: "nat \<Rightarrow> rat \<Rightarrow> nat" where
  "doublings 0 q = 0"
| "doublings (Suc n) q = (if 1 / 2 \<le> q then 0 else Suc (doublings n (2 * q)))"

definition double_of_ratio :: "rat \<Rightarrow> rat" where
  "double_of_ratio q =
     (let s = 2 ^ (53 + doublings 1021 q)
      in of_int (round_half_even (q * s)) / s)"

text \<open>
  The loop that collects \<^verbatim>\<open>suitable_assignees\<close>. Loads are counts of tickets, so
  natural numbers; the divisor is positive wherever the quotient is formed.
\<close>

fun suitable_assignees :: "roster \<Rightarrow> category \<Rightarrow> (string \<times> rat) list" where
  "suitable_assignees [] c = []"
| "suitable_assignees ((email, info) # rest) c =
     (if c \<in> set (categories info) \<and> current_load info < max_tickets info
      then (email, double_of_ratio (of_nat (current_load info) / of_nat (max_tickets info)))
             # suitable_assignees rest c
      else suitable_assignees rest c)"

text \<open>\<^verbatim>\<open>min(xs, key=f)\<close> on a non-empty sequence: the first element with the least key.\<close>

fun min_by :: "('a \<Rightarrow> 'k::linorder) \<Rightarrow> 'a \<Rightarrow> 'a list \<Rightarrow> 'a" where
  "min_by f best [] = best"
| "min_by f best (x # xs) = min_by f (if f x < f best then x else best) xs"

text \<open>
  The body of \<^verbatim>\<open>assign_ticket\<close> with the roster as a parameter.
  \<^verbatim>\<open>list.sort(key=...)\<close> is stable, as \<^const>\<open>sort_key\<close> is.
\<close>

definition assign_from :: "roster \<Rightarrow> ticket \<Rightarrow> error + string" where
  "assign_from team t =
     (let suitable = suitable_assignees team (category t)
      in if suitable = [] then
           (case team of
              [] \<Rightarrow> Inl ValueError
            | x # xs \<Rightarrow> Inr (fst (min_by (\<lambda>p. current_load (snd p)) x xs)))
         else
           (case sort_key snd suitable of
              [] \<Rightarrow> Inl IndexError
            | p # _ \<Rightarrow> Inr (fst p)))"

definition assign_ticket :: "ticket \<Rightarrow> error + string" where
  "assign_ticket t = assign_from team_skills t"

subsection \<open>Estimate: \<^verbatim>\<open>predict_resolution_time\<close>\<close>

definition base_times :: "((category \<times> priority) \<times> nat) list" where
  "base_times =
     [((HARDWARE, CRITICAL), 120), ((HARDWARE, HIGH), 180),
      ((HARDWARE, MEDIUM), 240), ((HARDWARE, LOW), 480),
      ((SOFTWARE, CRITICAL), 60), ((SOFTWARE, HIGH), 120),
      ((SOFTWARE, MEDIUM), 180), ((SOFTWARE, LOW), 360),
      ((NETWORK, CRITICAL), 90), ((NETWORK, HIGH), 150),
      ((NETWORK, MEDIUM), 240), ((NETWORK, LOW), 480),
      ((ACCESS, CRITICAL), 30), ((ACCESS, HIGH), 45),
      ((ACCESS, MEDIUM), 60), ((ACCESS, LOW), 120),
      ((EMAIL, CRITICAL), 45), ((EMAIL, HIGH), 90),
      ((EMAIL, MEDIUM), 120), ((EMAIL, LOW), 240)]"

text \<open>
  The multipliers 1.5 and 0.8 are the rationals 3/2 and 4/5, and \<^verbatim>\<open>int()\<close> of a
  non-negative number is its floor. Every base time is a multiple of five below
  \<open>2^53\<close>, where the floating-point product and the rational one have the same
  integer part.
\<close>

definition predict_resolution_time :: "nat \<Rightarrow> ticket \<Rightarrow> nat" where
  "predict_resolution_time current_hour t =
     (let key = (category t, priority t);
          base_time = (case map_of base_times key of Some b \<Rightarrow> b | None \<Rightarrow> 180);
          multiplier = (if 9 \<le> current_hour \<and> current_hour \<le> 17 then 3 / 2 else 4 / 5 :: rat)
      in nat \<lfloor>of_nat base_time * multiplier\<rfloor>)"

subsection \<open>Intake: \<^verbatim>\<open>create_ticket\<close>\<close>

text \<open>
  \<open>process_ticket\<close> is the body of \<^verbatim>\<open>create_ticket\<close> up to its
  \<^verbatim>\<open>return\<close>: it gives the final \<^verbatim>\<open>new_ticket\<close>, the estimate and the world
  after the call. \<open>create_ticket\<close> builds the response from them.
\<close>

definition process_ticket ::
  "env \<Rightarrow> ticket_create \<Rightarrow> world \<Rightarrow> error + ticket \<times> nat \<times> world" where
  "process_ticket e req w =
     (case classify_ticket (classifier e) (req_title req) (req_description req) of
        Inl err \<Rightarrow> Inl err
      | Inr cls \<Rightarrow>
          let new_ticket =
                \<lparr>ticket_id = fresh_id e, title = req_title req,
                 description = req_description req, category = cls_category cls,
                 priority = cls_priority cls, status = NEW,
                 user_email = req_user_email req, created_at = clock e,
                 resolution = None, auto_resolved = None, assignee = None\<rparr>;
              (res, w1) =
                (if cls_priority cls \<in> set [LOW, MEDIUM]
                 then auto_resolve_ticket (completion e) (clock e) new_ticket w
                 else (None, w));
              t1 = (if truthy res
                    then new_ticket\<lparr>status := RESOLVED, resolution := res,
                                     auto_resolved := Some 1\<rparr>
                    else new_ticket)
          in if \<not> truthy res then
               (case assign_ticket t1 of
                  Inl err \<Rightarrow> Inl err
                | Inr a \<Rightarrow>
                    let t2 = t1\<lparr>assignee := Some a, status := IN_PROGRESS\<rparr>
                    in Inr (t2, predict_resolution_time (clock_hour e) t2, w1))
             else Inr (t1, predict_resolution_time (clock_hour e) t1, w1))"

definition create_ticket ::
  "env \<Rightarrow> ticket_create \<Rightarrow> world \<Rightarrow> error + ticket_response \<times> world" where
  "create_ticket e req w =
     (case process_ticket e req w of
        Inl err \<Rightarrow> Inl err
      | Inr (t, estimated_time, w') \<Rightarrow>
          Inr (\<lparr>resp_id = ticket_id t, resp_title = title t, resp_category = category t,
                resp_priority = priority t, resp_status = status t,
                resp_assignee = assignee t, resp_resolution = resolution t,
                estimated_resolution_time = estimated_time\<rparr>, w'))"

subsection \<open>Example inputs\<close>

text \<open>A LOW ticket about a crash that also mentions a password.\<close>

definition crash_ticket :: ticket where
  "crash_ticket = \<lparr>ticket_id = 1234, title = ''Excel CRASH'',
     description = ''It crashes after I changed my Password'', category = SOFTWARE,
     priority = LOW, status = NEW, user_email = ''u@company.com'', created_at = 0,
     resolution = None, auto_resolved = None, assignee = None\<rparr>"

text \<open>
  A classifier that always answers ACCESS, a completion service that always sends the same
  text, ten o'clock in the morning.
\<close>

definition demo_env :: env where
  "demo_env = \<lparr>classifier = (\<lambda>_. Inr (ACCESS, 9 / 10)),
     completion = (\<lambda>_. Inr ''Disable nonessential startup programs, then reboot.''),
     clock = 1000, clock_hour = 10, fresh_id = 4242\<rparr>"


definition empty_world :: world where
  "empty_world = \<lparr>redis = Map.empty, ai_calls = []\<rparr>"

text \<open>A CRITICAL request whose text matches the first knowledge-base entry.\<close>

definition urgent_request :: ticket_create where
  "urgent_request = \<lparr>req_title = ''URGENT: forgot my password'',
     req_description = ''I am locked out, please reset it'',
     req_user_email = ''user@company.com''\<rparr>"


text \<open>A LOW request that matches no knowledge-base entry.\<close>

definition printer_request :: ticket_create where
  "printer_request = \<lparr>req_title = ''Printer tray'',
     req_description = ''paper jams every day'',
     req_user_email = ''user@company.com''\<rparr>"

text \<open>Two handlers with the same workload ratio, five of ten and four of eight.\<close>

definition tie_roster :: roster where
  "tie_roster =
     [(''zoe@company.com'',
         \<lparr>categories = [HARDWARE], max_tickets = 10, current_load = 5\<rparr>),
      (''amy@company.com'',
         \<lparr>categories = [HARDWARE], max_tickets = 8, current_load = 4\<rparr>)]"

text \<open>
  Two handlers whose ratios differ by less than the floats can tell apart: the second is
  the smaller by one part in \<open>4 * 10 ^ 16\<close>.
\<close>

definition close_roster :: roster where
  "close_roster =
     [(''A'',
         \<lparr>categories = [HARDWARE], max_tickets = 200000001, current_load = 100000001\<rparr>),
      (''B'',
         \<lparr>categories = [HARDWARE], max_tickets = 200000003, current_load = 100000002\<rparr>)]"

text \<open>A HARDWARE ticket, and a ticket of a category that no handler covers.\<close>

definition hardware_ticket :: ticket where
  "hardware_ticket = crash_ticket\<lparr>title := ''Monitor flickering'',
     description := ''The second screen flickers'', category := HARDWARE\<rparr>"

definition other_ticket :: ticket where
  "other_ticket = crash_ticket\<lparr>category := OTHER\<rparr>"

subsection \<open>The estimate as the specification words it\<close>

text \<open>
  The specification gives the business hours as the half-open interval from 9 to 17.
  This second estimate follows its words; it is compared with
  \<open>predict_resolution_time\<close> below.
\<close>

definition estimate_half_open :: "nat \<Rightarrow> ticket \<Rightarrow> nat" where
  "estimate_half_open current_hour t =
     (let base_time = (case map_of base_times (category t, priority t) of
                         Some b \<Rightarrow> b | None \<Rightarrow> 180);
          multiplier = (if 9 \<le> current_hour \<and> current_hour < 17 then 3 / 2 else 4 / 5 :: rat)
      in nat \<lfloor>of_nat base_time * multiplier\<rfloor>)"

section \<open>Properties\<close>

subsection \<open>Strings\<close>

lemma str_in_sublist: "str_in w t \<longleftrightarrow> sublist w t"
  by (induction t) (auto simp: sublist_Cons_right)

lemma any_in_iff: "any_in ws t \<longleftrightarrow> (\<exists>w \<in> set ws. sublist w t)"
  by (simp add: any_in_def list_ex_iff str_in_sublist)

lemma lower_append: "lower (a @ b) = lower a @ lower b"
  by (simp add: lower_def)

lemma sublist_lower: "sublist u t \<Longrightarrow> sublist (lower u) (lower t)"
  unfolding lower_def by (rule map_mono_sublist)

subsection \<open>Priority classifier\<close>

text \<open>
  Claim C1. The priority classifier looks, in the lower-cased text, for a keyword of the
  CRITICAL set, then of the HIGH set, then of the MEDIUM set, and answers with the first
  set that has a match, LOW when none has. A text that contains a CRITICAL keyword, in
  any letter case, is CRITICAL whatever else it contains, MEDIUM keywords included.
\<close>

theorem determine_priority_precedence:
  "(determine_priority text = CRITICAL \<longleftrightarrow>
      (\<exists>k \<in> set critical_keywords. sublist k (lower text)))
   \<and> (determine_priority text = HIGH \<longleftrightarrow>
      \<not> (\<exists>k \<in> set critical_keywords. sublist k (lower text))
      \<and> (\<exists>k \<in> set high_keywords. sublist k (lower text)))
   \<and> (determine_priority text = MEDIUM \<longleftrightarrow>
      \<not> (\<exists>k \<in> set critical_keywords. sublist k (lower text))
      \<and> \<not> (\<exists>k \<in> set high_keywords. sublist k (lower text))
      \<and> (\<exists>k \<in> set medium_keywords. sublist k (lower text)))
   \<and> (determine_priority text = LOW \<longleftrightarrow>
      \<not> (\<exists>k \<in> set (critical_keywords @ high_keywords @ medium_keywords).
            sublist k (lower text)))
   \<and> (\<forall>u. sublist u text \<and> lower u \<in> set critical_keywords
          \<longrightarrow> determine_priority text = CRITICAL)"
proof -
  let ?c = "\<exists>k \<in> set critical_keywords. sublist k (lower text)"
  let ?h = "\<exists>k \<in> set high_keywords. sublist k (lower text)"
  let ?m = "\<exists>k \<in> set medium_keywords. sublist k (lower text)"
  have d: "determine_priority text =
      (if ?c then CRITICAL else if ?h then HIGH else if ?m then MEDIUM else LOW)"
    by (simp add: determine_priority_def Let_def any_in_iff)
  have c: "determine_priority text = CRITICAL \<longleftrightarrow> ?c"
    by (simp add: d)
  have h: "determine_priority text = HIGH \<longleftrightarrow> \<not> ?c \<and> ?h"
    by (simp add: d)
  have m: "determine_priority text = MEDIUM \<longleftrightarrow> \<not> ?c \<and> \<not> ?h \<and> ?m"
    by (simp add: d)
  have l: "determine_priority text = LOW \<longleftrightarrow>
      \<not> (\<exists>k \<in> set (critical_keywords @ high_keywords @ medium_keywords).
            sublist k (lower text))"
    by (auto simp: d)
  have u: "determine_priority text = CRITICAL"
    if "sublist u text \<and> lower u \<in> set critical_keywords" for u
    using that c sublist_lower [of u "text"] by blast
  from c h m l u show ?thesis by blast
qed

theorem determine_priority_precedence_witness:
  "determine_priority ''Help: error, problem, issue - the server is DOWN'' = CRITICAL
   \<and> sublist ''DOWN'' ''Help: error, problem, issue - the server is DOWN''
   \<and> lower ''DOWN'' \<in> set critical_keywords
   \<and> list_all (\<lambda>k. sublist k (lower ''Help: error, problem, issue - the server is DOWN''))
         medium_keywords"
proof -
  have a: "sublist ''DOWN'' ''Help: error, problem, issue - the server is DOWN''"
    by code_simp
  have b: "lower ''DOWN'' \<in> set critical_keywords"
    by code_simp
  have c: "list_all (\<lambda>k. sublist k (lower ''Help: error, problem, issue - the server is DOWN''))
         medium_keywords"
    by code_simp
  from a b c
    determine_priority_precedence [of "''Help: error, problem, issue - the server is DOWN''"]
  show ?thesis by blast
qed

subsection \<open>Knowledge base\<close>

lemma kb_scan_first:
  "\<forall>e \<in> set pre. \<not> any_in (fst (snd e)) t \<Longrightarrow> any_in kws t
     \<Longrightarrow> kb_scan (pre @ (i, kws, r) # post) t = Some r"
  by (induction pre) auto

lemma kb_scan_split:
  "kb_scan kb t = Some r \<Longrightarrow>
     \<exists>pre i kws post. kb = pre @ (i, kws, r) # post \<and> any_in kws t
        \<and> (\<forall>e \<in> set pre. \<not> any_in (fst (snd e)) t)"
proof (induction kb)
  case Nil
  then show ?case by simp
next
  case (Cons e kb)
  obtain i0 kws0 r0 where e: "e = (i0, kws0, r0)"
    by (cases e) auto
  show ?case
  proof (cases "any_in kws0 t")
    case True
    with Cons.prems e have "r0 = r" by simp
    with True e have "e # kb = [] @ (i0, kws0, r) # kb \<and> any_in kws0 t
        \<and> (\<forall>e \<in> set []. \<not> any_in (fst (snd e)) t)"
      by simp
    then show ?thesis by blast
  next
    case False
    with Cons.prems e have "kb_scan kb t = Some r" by simp
    from Cons.IH [OF this] obtain pre i kws post where
      p: "kb = pre @ (i, kws, r) # post" "any_in kws t"
         "\<forall>e \<in> set pre. \<not> any_in (fst (snd e)) t"
      by blast
    from p False e have "e # kb = (e # pre) @ (i, kws, r) # post \<and> any_in kws t
        \<and> (\<forall>e \<in> set (e # pre). \<not> any_in (fst (snd e)) t)"
      by simp
    then show ?thesis by blast
  qed
qed

lemma kb_scan_None: "kb_scan kb t = None \<longleftrightarrow> (\<forall>e \<in> set kb. \<not> any_in (fst (snd e)) t)"
  by (induction kb t rule: kb_scan.induct) auto

lemma knowledge_base_order:
  "map fst knowledge_base = [''PASSWORD_RESET'', ''WIFI_CONNECTION'', ''SOFTWARE_CRASH'']"
  by (simp add: knowledge_base_def)

lemma resolutions_differ: "password_reset_resolution \<noteq> software_crash_resolution"
  by code_simp

lemma auto_resolve_kb:
  "\<not> truthy (redis_get w now (category t, take 50 (title t)))
   \<Longrightarrow> kb_scan knowledge_base (lower (title t @ '' '' @ description t)) = Some r
   \<Longrightarrow> fst (auto_resolve_ticket ai now t w) = Some r"
  by (simp add: auto_resolve_ticket_def Let_def)

text \<open>
  Claim C9. The knowledge base is scanned in the order PASSWORD_RESET, WIFI_CONNECTION,
  SOFTWARE_CRASH, and the answer is the resolution of the first entry one of whose
  keywords occurs in the lower-cased text (none when no entry matches). A text with both
  "crash" and "password", in any letter case, gets the PASSWORD_RESET resolution, not the
  SOFTWARE_CRASH one, and on a cache miss this is what \<open>auto_resolve_ticket\<close> returns.
\<close>

theorem kb_first_match_wins:
  "map fst knowledge_base = [''PASSWORD_RESET'', ''WIFI_CONNECTION'', ''SOFTWARE_CRASH'']
   \<and> (kb_scan knowledge_base (lower txt) = Some r \<longleftrightarrow>
        (\<exists>pre issue kws post. knowledge_base = pre @ (issue, kws, r) # post
           \<and> (\<exists>k \<in> set kws. sublist k (lower txt))
           \<and> (\<forall>e \<in> set pre. \<not> (\<exists>k \<in> set (fst (snd e)). sublist k (lower txt)))))
   \<and> (kb_scan knowledge_base (lower txt) = None \<longleftrightarrow>
        (\<forall>e \<in> set knowledge_base. \<not> (\<exists>k \<in> set (fst (snd e)). sublist k (lower txt))))
   \<and> (sublist ''crash'' (lower txt) \<and> sublist ''password'' (lower txt) \<longrightarrow>
        kb_scan knowledge_base (lower txt) = Some password_reset_resolution
        \<and> kb_scan knowledge_base (lower txt) \<noteq> Some software_crash_resolution)
   \<and> (\<forall>u v. sublist u txt \<and> lower u = ''crash'' \<and> sublist v txt \<and> lower v = ''password''
        \<longrightarrow> kb_scan knowledge_base (lower txt) = Some password_reset_resolution)
   \<and> (\<forall>ai now t w.
        txt = title t @ '' '' @ description t
        \<and> \<not> truthy (redis_get w now (category t, take 50 (title t)))
        \<and> kb_scan knowledge_base (lower txt) = Some r
        \<longrightarrow> fst (auto_resolve_ticket ai now t w) = Some r)"
proof -
  have a: "kb_scan knowledge_base (lower txt) = Some r \<longleftrightarrow>
        (\<exists>pre issue kws post. knowledge_base = pre @ (issue, kws, r) # post
           \<and> (\<exists>k \<in> set kws. sublist k (lower txt))
           \<and> (\<forall>e \<in> set pre. \<not> (\<exists>k \<in> set (fst (snd e)). sublist k (lower txt))))"
    (is "?l \<longleftrightarrow> ?r")
  proof
    assume ?l
    from kb_scan_split [OF this] show ?r
      by (simp add: any_in_iff)
  next
    assume ?r
    then obtain pre issue kws post where
      p: "knowledge_base = pre @ (issue, kws, r) # post" "any_in kws (lower txt)"
         "\<forall>e \<in> set pre. \<not> any_in (fst (snd e)) (lower txt)"
      unfolding any_in_iff by blast
    from kb_scan_first [OF p(3) p(2), of issue r post] p(1) show ?l
      by simp
  qed
  have b: "kb_scan knowledge_base (lower txt) = None \<longleftrightarrow>
        (\<forall>e \<in> set knowledge_base. \<not> (\<exists>k \<in> set (fst (snd e)). sublist k (lower txt)))"
    by (simp add: kb_scan_None any_in_iff)
  have c: "kb_scan knowledge_base (lower txt) = Some password_reset_resolution
        \<and> kb_scan knowledge_base (lower txt) \<noteq> Some software_crash_resolution"
    if "sublist ''crash'' (lower txt) \<and> sublist ''password'' (lower txt)"
  proof -
    from that have "any_in [''password'', ''reset'', ''forgot'', ''locked''] (lower txt)"
      by (simp add: any_in_iff)
    then have "kb_scan knowledge_base (lower txt) = Some password_reset_resolution"
      by (simp add: knowledge_base_def)
    with resolutions_differ show ?thesis by simp
  qed
  have d: "fst (auto_resolve_ticket ai now t w) = Some r"
    if "txt = title t @ '' '' @ description t
        \<and> \<not> truthy (redis_get w now (category t, take 50 (title t)))
        \<and> kb_scan knowledge_base (lower txt) = Some r" for ai now t w
  proof -
    from that have 1: "\<not> truthy (redis_get w now (category t, take 50 (title t)))"
      and 2: "kb_scan knowledge_base (lower (title t @ '' '' @ description t)) = Some r"
      by auto
    from auto_resolve_kb [OF 1 2] show ?thesis .
  qed
  have c': "kb_scan knowledge_base (lower txt) = Some password_reset_resolution"
    if "sublist u txt \<and> lower u = ''crash'' \<and> sublist v txt \<and> lower v = ''password''"
    for u v
  proof -
    from that sublist_lower [of u "txt"] sublist_lower [of v "txt"]
    have "sublist ''crash'' (lower txt) \<and> sublist ''password'' (lower txt)"
      by metis
    from c [OF this] show ?thesis by simp
  qed
  from knowledge_base_order a b c c' d show ?thesis by blast
qed

theorem kb_first_match_wins_witness:
  "sublist ''crash'' (lower (title crash_ticket @ '' '' @ description crash_ticket))
   \<and> sublist ''password'' (lower (title crash_ticket @ '' '' @ description crash_ticket))
   \<and> \<not> truthy (redis_get \<lparr>redis = Map.empty, ai_calls = []\<rparr> 0
           (category crash_ticket, take 50 (title crash_ticket)))
   \<and> fst (auto_resolve_ticket (\<lambda>_. Inl ResolutionCapabilityError) 0 crash_ticket
           \<lparr>redis = Map.empty, ai_calls = []\<rparr>) = Some password_reset_resolution"
proof -
  let ?txt = "title crash_ticket @ '' '' @ description crash_ticket"
  have a: "sublist ''crash'' (lower ?txt)" by code_simp
  have b: "sublist ''password'' (lower ?txt)" by code_simp
  have c: "\<not> truthy (redis_get \<lparr>redis = Map.empty, ai_calls = []\<rparr> 0
           (category crash_ticket, take 50 (title crash_ticket)))"
    by (simp add: redis_get_def)
  from a b c kb_first_match_wins [of ?txt password_reset_resolution]
  show ?thesis by blast
qed

subsection \<open>Assignment: shared facts\<close>

lemma hd_sort_key_first_min:
  "xs \<noteq> [] \<Longrightarrow>
     \<exists>pre p post. xs = pre @ p # post \<and> hd (sort_key f xs) = p
       \<and> (\<forall>q \<in> set pre. f p < f q) \<and> (\<forall>q \<in> set post. f p \<le> f q)"
proof (induction xs)
  case Nil
  then show ?case by simp
next
  case (Cons x xs)
  show ?case
  proof (cases "xs = []")
    case True
    then have "x # xs = [] @ x # [] \<and> hd (sort_key f (x # xs)) = x
       \<and> (\<forall>q \<in> set []. f x < f q) \<and> (\<forall>q \<in> set []. f x \<le> f q)"
      by simp
    then show ?thesis by blast
  next
    case False
    from Cons.IH [OF False] obtain pre p post where
      s: "xs = pre @ p # post" and h: "hd (sort_key f xs) = p"
      and l: "\<forall>q \<in> set pre. f p < f q" and r: "\<forall>q \<in> set post. f p \<le> f q"
      by blast
    from False have ne: "sort_key f xs \<noteq> []"
      by (metis length_sort length_0_conv)
    then obtain y ys where ys: "sort_key f xs = y # ys"
      by (cases "sort_key f xs") auto
    with h have y: "y = p" by simp
    show ?thesis
    proof (cases "f x \<le> f p")
      case True
      with ys y have "hd (sort_key f (x # xs)) = x" by simp
      moreover from True s l r have "\<forall>q \<in> set xs. f x \<le> f q"
        by (auto intro: order_trans less_imp_le)
      ultimately have "x # xs = [] @ x # xs \<and> hd (sort_key f (x # xs)) = x
         \<and> (\<forall>q \<in> set []. f x < f q) \<and> (\<forall>q \<in> set xs. f x \<le> f q)"
        by simp
      then show ?thesis by blast
    next
      case False
      with ys y have "hd (sort_key f (x # xs)) = p" by simp
      moreover from False l have "\<forall>q \<in> set (x # pre). f p < f q"
        by auto
      moreover from s have "x # xs = (x # pre) @ p # post" by simp
      ultimately show ?thesis using r by blast
    qed
  qed
qed

lemma min_by_first_min:
  "\<exists>pre post. best # xs = pre @ min_by f best xs # post
       \<and> (\<forall>q \<in> set pre. f (min_by f best xs) < f q)
       \<and> (\<forall>q \<in> set post. f (min_by f best xs) \<le> f q)"
proof (induction xs arbitrary: best)
  case Nil
  have "[best] = [] @ min_by f best [] # []
       \<and> (\<forall>q \<in> set []. f (min_by f best []) < f q)
       \<and> (\<forall>q \<in> set []. f (min_by f best []) \<le> f q)"
    by simp
  then show ?case by blast
next
  case (Cons x xs)
  define b where "b = (if f x < f best then x else best)"
  define m where "m = min_by f b xs"
  from Cons.IH [of b] obtain pre post where
    s: "b # xs = pre @ m # post"
    and l: "\<forall>q \<in> set pre. f m < f q" and r: "\<forall>q \<in> set post. f m \<le> f q"
    unfolding m_def by blast
  have mm: "min_by f best (x # xs) = m"
    by (simp add: m_def b_def)
  have le: "f m \<le> f b"
  proof (cases pre)
    case Nil
    with s show ?thesis by simp
  next
    case (Cons a as)
    with s l show ?thesis by auto
  qed
  show ?case
  proof (cases "f x < f best")
    case True
    then have bx: "b = x" by (simp add: b_def)
    with s have "best # x # xs = (best # pre) @ m # post" by simp
    moreover from True le l bx have "\<forall>q \<in> set (best # pre). f m < f q" by auto
    ultimately show ?thesis unfolding mm using r by blast
  next
    case False
    then have bb: "b = best" by (simp add: b_def)
    show ?thesis
    proof (cases pre)
      case Nil
      with s bb have e: "m = best" "post = xs" by simp_all
      with False r have "\<forall>q \<in> set (x # xs). f m \<le> f q"
        by auto
      moreover from e have "best # x # xs = [] @ m # (x # xs)" by simp
      moreover have "\<forall>q \<in> set []. f m < f q" by simp
      ultimately show ?thesis unfolding mm by blast
    next
      case (Cons a as)
      with s bb have a: "a = best" "xs = as @ m # post" by simp_all
      from Cons a l have lb: "f m < f best" by simp
      with False have "f m < f x" by auto
      with Cons a l lb have "\<forall>q \<in> set (best # x # as). f m < f q" by auto
      moreover from a have "best # x # xs = (best # x # as) @ m # post" by simp
      ultimately show ?thesis unfolding mm using r by blast
    qed
  qed
qed

lemma suitable_assignees_eq:
  "suitable_assignees team c =
     map (\<lambda>(email, info).
            (email, double_of_ratio (of_nat (current_load info) / of_nat (max_tickets info))))
       (filter (\<lambda>(email, info). c \<in> set (categories info)
                  \<and> current_load info < max_tickets info) team)"
  by (induction team c rule: suitable_assignees.induct) auto

lemma assign_from_suitable:
  assumes "suitable_assignees team (category t) \<noteq> []"
  shows "\<exists>pre h r post. suitable_assignees team (category t) = pre @ (h, r) # post
           \<and> assign_from team t = Inr h
           \<and> (\<forall>q \<in> set pre. r < snd q) \<and> (\<forall>q \<in> set post. r \<le> snd q)"
proof -
  let ?s = "suitable_assignees team (category t)"
  from hd_sort_key_first_min [OF assms, of snd] obtain pre p post where
    s: "?s = pre @ p # post" and h: "hd (sort_key snd ?s) = p"
    and l: "\<forall>q \<in> set pre. snd p < snd q" and r: "\<forall>q \<in> set post. snd p \<le> snd q"
    by blast
  from assms have "sort_key snd ?s \<noteq> []"
    by (metis length_sort length_0_conv)
  with h assms have "assign_from team t = Inr (fst p)"
    by (cases "sort_key snd ?s") (simp_all add: assign_from_def Let_def)
  with s l r have "?s = pre @ (fst p, snd p) # post \<and> assign_from team t = Inr (fst p)
           \<and> (\<forall>q \<in> set pre. snd p < snd q) \<and> (\<forall>q \<in> set post. snd p \<le> snd q)"
    by simp
  then show ?thesis by blast
qed

lemma assign_from_fallback:
  assumes "team \<noteq> []" and "suitable_assignees team (category t) = []"
  shows "\<exists>pre h info post. team = pre @ (h, info) # post
           \<and> assign_from team t = Inr h
           \<and> (\<forall>q \<in> set pre. current_load info < current_load (snd q))
           \<and> (\<forall>q \<in> set post. current_load info \<le> current_load (snd q))"
proof -
  from assms(1) obtain x xs where t: "team = x # xs" by (cases team) auto
  let ?m = "min_by (\<lambda>p. current_load (snd p)) x xs"
  from min_by_first_min [of x xs "\<lambda>p. current_load (snd p)"] obtain pre post where
    s: "x # xs = pre @ ?m # post"
    and l: "\<forall>q \<in> set pre. current_load (snd ?m) < current_load (snd q)"
    and r: "\<forall>q \<in> set post. current_load (snd ?m) \<le> current_load (snd q)"
    by blast
  from t assms(2) have "assign_from team t = Inr (fst ?m)"
    by (simp add: assign_from_def)
  with s t l r have "team = pre @ (fst ?m, snd ?m) # post
           \<and> assign_from team t = Inr (fst ?m)
           \<and> (\<forall>q \<in> set pre. current_load (snd ?m) < current_load (snd q))
           \<and> (\<forall>q \<in> set post. current_load (snd ?m) \<le> current_load (snd q))"
    by simp
  then show ?thesis by blast
qed

lemma assign_from_total:
  assumes "team \<noteq> []"
  shows "\<exists>h. assign_from team t = Inr h \<and> h \<in> fst ` set team"
proof (cases "suitable_assignees team (category t) = []")
  case True
  from assign_from_fallback [OF assms True] show ?thesis by force
next
  case False
  from assign_from_suitable [OF False] obtain pre h r post where
    s: "suitable_assignees team (category t) = pre @ (h, r) # post"
    and a: "assign_from team t = Inr h"
    by blast
  from s have "(h, r) \<in> set (suitable_assignees team (category t))" by simp
  then have "h \<in> fst ` set team"
    unfolding suitable_assignees_eq by force
  with a show ?thesis by blast
qed

text \<open>
  Rounding to the nearest float moves a ratio by at most \<open>2 ^ -54\<close>. Two different
  ratios with denominators below \<open>2 ^ 26\<close> are more than \<open>2 ^ -52\<close> apart, so
  rounding keeps their order.
\<close>

lemma round_half_even_error: "\<bar>of_int (round_half_even x) - x\<bar> \<le> 1 / 2"
proof -
  have "of_int \<lfloor>x\<rfloor> \<le> x" "x < of_int \<lfloor>x\<rfloor> + 1"
    by linarith+
  then show ?thesis
    by (auto simp: round_half_even_def Let_def abs_le_iff)
qed

lemma double_of_ratio_error: "\<bar>double_of_ratio q - q\<bar> \<le> 1 / 2 ^ 54"
proof -
  define s :: rat where "s = 2 ^ (53 + doublings 1021 q)"
  have s53: "2 ^ 53 \<le> s"
    unfolding s_def by (rule power_increasing) simp_all
  then have s0: "0 < s" by simp
  have d: "double_of_ratio q = of_int (round_half_even (q * s)) / s"
    by (simp add: double_of_ratio_def Let_def s_def)
  have "double_of_ratio q - q = (of_int (round_half_even (q * s)) - q * s) / s"
    using s0 by (simp add: d field_simps)
  then have "\<bar>double_of_ratio q - q\<bar> = \<bar>of_int (round_half_even (q * s)) - q * s\<bar> / s"
    using s0 by (simp add: abs_divide)
  also have "\<dots> \<le> (1 / 2) / s"
    by (rule divide_right_mono [OF round_half_even_error]) (use s0 in simp)
  also have "\<dots> \<le> (1 / 2) / 2 ^ 53"
    using s53 by (simp add: frac_le)
  finally show ?thesis by simp
qed


lemma ratio_gap:
  fixes a b c d :: nat
  assumes "0 < b" "0 < d" "b < 2 ^ 26" "d < 2 ^ 26"
    and lt: "(of_nat a / of_nat b :: rat) < of_nat c / of_nat d"
  shows "(1 :: rat) / 2 ^ 52 < of_nat c / of_nat d - of_nat a / of_nat b"
proof -
  from lt assms(1,2) have "of_nat a * of_nat d < (of_nat c * of_nat b :: rat)"
    by (simp add: field_simps)
  then have "a * d < c * b"
    by (metis of_nat_less_iff of_nat_mult)
  then have "a * d + 1 \<le> c * b" by simp
  then have n: "(of_nat (a * d) + 1 :: rat) \<le> of_nat (c * b)"
    by (metis of_nat_1 of_nat_add of_nat_le_iff)
  have "b * d < 2 ^ 26 * 2 ^ 26"
    using assms(3,4) by (rule mult_strict_mono) simp_all
  then have "b * d < 2 ^ 52" by simp
  then have bd: "(of_nat (b * d) :: rat) < 2 ^ 52"
    by (metis of_nat_less_iff of_nat_numeral of_nat_power)
  have pos: "(0 :: rat) < of_nat (b * d)"
    using assms(1,2) by simp
  have "of_nat c / of_nat d - of_nat a / of_nat b
      = (of_nat (c * b) - of_nat (a * d) :: rat) / of_nat (b * d)"
    using assms(1,2) by (simp add: field_simps)
  also have "\<dots> \<ge> 1 / of_nat (b * d)"
    using n pos by (simp add: divide_right_mono)
  finally have "1 / of_nat (b * d) \<le> (of_nat c / of_nat d - of_nat a / of_nat b :: rat)" .
  moreover have "(1 :: rat) / 2 ^ 52 < 1 / of_nat (b * d)"
    using bd pos by (simp add: frac_less2)
  ultimately show ?thesis by linarith
qed

lemma double_of_ratio_strict:
  fixes a b c d :: nat
  assumes "0 < b" "0 < d" "b < 2 ^ 26" "d < 2 ^ 26"
    and lt: "(of_nat a / of_nat b :: rat) < of_nat c / of_nat d"
  shows "double_of_ratio (of_nat a / of_nat b) < double_of_ratio (of_nat c / of_nat d)"
proof -
  let ?p = "of_nat a / of_nat b :: rat" and ?q = "of_nat c / of_nat d :: rat"
  from ratio_gap [OF assms] have g: "(1 :: rat) / 2 ^ 52 < ?q - ?p" .
  from double_of_ratio_error [of ?p] have "double_of_ratio ?p \<le> ?p + 1 / 2 ^ 54"
    by linarith
  moreover from double_of_ratio_error [of ?q] have "?q - 1 / 2 ^ 54 \<le> double_of_ratio ?q"
    by linarith
  moreover have "(2 :: rat) / 2 ^ 54 < 1 / 2 ^ 52" by simp
  ultimately show ?thesis using g by linarith
qed

lemma double_of_ratio_less_iff:
  fixes a b c d :: nat
  assumes "0 < b" "0 < d" "b < 2 ^ 26" "d < 2 ^ 26"
  shows "double_of_ratio (of_nat a / of_nat b) < double_of_ratio (of_nat c / of_nat d)
           \<longleftrightarrow> (of_nat a / of_nat b :: rat) < of_nat c / of_nat d"
    and "double_of_ratio (of_nat a / of_nat b) \<le> double_of_ratio (of_nat c / of_nat d)
           \<longleftrightarrow> (of_nat a / of_nat b :: rat) \<le> of_nat c / of_nat d"
proof -
  let ?p = "of_nat a / of_nat b :: rat" and ?q = "of_nat c / of_nat d :: rat"
  have 1: "?p < ?q \<Longrightarrow> double_of_ratio ?p < double_of_ratio ?q"
    using double_of_ratio_strict [OF assms] by simp
  have 2: "?q < ?p \<Longrightarrow> double_of_ratio ?q < double_of_ratio ?p"
    using double_of_ratio_strict [OF assms(2,1,4,3)] by simp
  have 3: "?p = ?q \<Longrightarrow> double_of_ratio ?p = double_of_ratio ?q"
    by simp
  from 1 2 3 show "double_of_ratio ?p < double_of_ratio ?q \<longleftrightarrow> ?p < ?q"
    by (metis less_irrefl less_linear less_trans)
  from 1 2 3 show "double_of_ratio ?p \<le> double_of_ratio ?q \<longleftrightarrow> ?p \<le> ?q"
    by (metis leD leI le_less)
qed

subsection \<open>Intake: shared facts\<close>

lemma assign_ticket_total: "\<exists>a. assign_ticket t = Inr a"
proof -
  have "team_skills \<noteq> []" by (simp add: team_skills_def)
  from assign_from_total [OF this, of t] show ?thesis
    by (auto simp: assign_ticket_def)
qed

lemma generate_ai_resolution_logs:
  "ai_calls (snd (generate_ai_resolution ai t w)) = ai_calls w @ [t]"
  by (simp add: generate_ai_resolution_def Let_def split: sum.splits)


lemma process_ticket_urgent:
  assumes "classifier e (req_title req @ '' '' @ req_description req) = Inr (cat, conf)"
    and "determine_priority (req_title req @ '' '' @ req_description req) \<in> {HIGH, CRITICAL}"
  shows "\<exists>a. assign_ticket
            \<lparr>ticket_id = fresh_id e, title = req_title req,
             description = req_description req, category = cat,
             priority = determine_priority (req_title req @ '' '' @ req_description req),
             status = NEW, user_email = req_user_email req, created_at = clock e,
             resolution = None, auto_resolved = None, assignee = None\<rparr> = Inr a
          \<and> process_ticket e req w =
            Inr (\<lparr>ticket_id = fresh_id e, title = req_title req,
                  description = req_description req, category = cat,
                  priority = determine_priority (req_title req @ '' '' @ req_description req),
                  status = IN_PROGRESS, user_email = req_user_email req,
                  created_at = clock e, resolution = None, auto_resolved = None,
                  assignee = Some a\<rparr>,
                 predict_resolution_time (clock_hour e)
                   \<lparr>ticket_id = fresh_id e, title = req_title req,
                    description = req_description req, category = cat,
                    priority =
                      determine_priority (req_title req @ '' '' @ req_description req),
                    status = IN_PROGRESS, user_email = req_user_email req,
                    created_at = clock e, resolution = None, auto_resolved = None,
                    assignee = Some a\<rparr>,
                 w)"
proof -
  let ?t = "\<lparr>ticket_id = fresh_id e, title = req_title req,
             description = req_description req, category = cat,
             priority = determine_priority (req_title req @ '' '' @ req_description req),
             status = NEW, user_email = req_user_email req, created_at = clock e,
             resolution = None, auto_resolved = None, assignee = None\<rparr>"
  obtain a where a: "assign_ticket ?t = Inr a"
    using assign_ticket_total by blast
  from assms(2) have p: "determine_priority (req_title req @ '' '' @ req_description req)
      \<notin> set [LOW, MEDIUM]"
    by auto
  from assms(1) a p show ?thesis
    by (simp add: process_ticket_def classify_ticket_def Let_def)
qed


lemma process_ticket_classified:
  assumes "process_ticket e req w = Inr (t, est, w')"
  shows "priority t = determine_priority (req_title req @ '' '' @ req_description req)
         \<and> (\<exists>conf. classifier e (req_title req @ '' '' @ req_description req)
                = Inr (category t, conf))"
  using assms
  by (auto simp: process_ticket_def classify_ticket_def Let_def
      split: sum.splits prod.splits if_splits)


lemma auto_resolve_ticket_urgent:
  "priority t \<in> {HIGH, CRITICAL}
   \<Longrightarrow> ai_calls (snd (auto_resolve_ticket ai now t w)) = ai_calls w"
  by (auto simp: auto_resolve_ticket_def Let_def redis_setex_def split: option.splits)

lemma create_ticket_Inr:
  "create_ticket e req w = Inr (resp, w') \<longleftrightarrow>
     (\<exists>t est. process_ticket e req w = Inr (t, est, w')
        \<and> resp = \<lparr>resp_id = ticket_id t, resp_title = title t, resp_category = category t,
                resp_priority = priority t, resp_status = status t,
                resp_assignee = assignee t, resp_resolution = resolution t,
                estimated_resolution_time = est\<rparr>)"
  by (auto simp: create_ticket_def split: sum.splits)


text \<open>
  The log of calls is not idle: a LOW request that neither the cache nor the knowledge
  base answers reaches the completion service once.
\<close>

lemma low_ticket_calls_ai:
  "map_sum id (\<lambda>(resp, w'). (resp_priority resp, resp_status resp, resp_resolution resp,
       resp_assignee resp, length (ai_calls w')))
     (create_ticket demo_env printer_request empty_world)
   = Inr (LOW, IN_PROGRESS, None, Some ''bob.wilson@company.com'', 1)"
  by code_simp

subsection \<open>Intake of HIGH and CRITICAL tickets\<close>

text \<open>
  Claim C3. For a ticket whose priority is HIGH or CRITICAL the completion service is
  never called during intake: neither \<open>auto_resolve_ticket\<close> nor \<open>create_ticket\<close>
  adds a call to the log, and \<open>create_ticket\<close> does return for such a ticket whenever
  the classifier answers.
\<close>

theorem urgent_never_calls_ai:
  "(priority t \<in> {HIGH, CRITICAL}
      \<longrightarrow> ai_calls (snd (auto_resolve_ticket ai now t w)) = ai_calls w)
   \<and> (\<forall>resp w'. create_ticket e req w = Inr (resp, w')
          \<and> resp_priority resp \<in> {HIGH, CRITICAL} \<longrightarrow> ai_calls w' = ai_calls w)
   \<and> (\<forall>cat conf. classifier e (req_title req @ '' '' @ req_description req) = Inr (cat, conf)
          \<and> determine_priority (req_title req @ '' '' @ req_description req)
               \<in> {HIGH, CRITICAL}
          \<longrightarrow> (\<exists>resp w'. create_ticket e req w = Inr (resp, w')
                \<and> ai_calls w' = ai_calls w))"
proof -
  let ?txt = "req_title req @ '' '' @ req_description req"
  have a: "priority t \<in> {HIGH, CRITICAL}
      \<longrightarrow> ai_calls (snd (auto_resolve_ticket ai now t w)) = ai_calls w"
    using auto_resolve_ticket_urgent by blast
  have c: "\<exists>resp. create_ticket e req w = Inr (resp, w)"
    if "classifier e ?txt = Inr (cat, conf)"
      "determine_priority ?txt \<in> {HIGH, CRITICAL}" for cat conf
    using process_ticket_urgent [OF that, of w]
    by (auto simp: create_ticket_def)
  have b: "ai_calls w' = ai_calls w"
    if "create_ticket e req w = Inr (resp, w') \<and> resp_priority resp \<in> {HIGH, CRITICAL}"
    for resp w'
  proof -
    from that obtain t est where
      p: "process_ticket e req w = Inr (t, est, w')" and r: "resp_priority resp = priority t"
      by (auto simp: create_ticket_Inr)
    from process_ticket_classified [OF p] obtain conf where
      q: "priority t = determine_priority ?txt" "classifier e ?txt = Inr (category t, conf)"
      by blast
    from that r q have "determine_priority ?txt \<in> {HIGH, CRITICAL}" by simp
    from process_ticket_urgent [OF q(2) this, of w] p show ?thesis by auto
  qed
  from a b c show ?thesis by blast
qed

theorem urgent_never_calls_ai_witness:
  "classifier demo_env (req_title urgent_request @ '' '' @ req_description urgent_request)
     = Inr (ACCESS, 9 / 10)
   \<and> determine_priority (req_title urgent_request @ '' '' @ req_description urgent_request)
       \<in> {HIGH, CRITICAL}
   \<and> (\<exists>resp w'. create_ticket demo_env urgent_request empty_world = Inr (resp, w')
         \<and> ai_calls w' = [])"
proof -
  have a: "classifier demo_env
      (req_title urgent_request @ '' '' @ req_description urgent_request)
     = Inr (ACCESS, 9 / 10)"
    by (simp add: demo_env_def)
  have b: "determine_priority
      (req_title urgent_request @ '' '' @ req_description urgent_request)
       \<in> {HIGH, CRITICAL}"
    by code_simp
  have c: "ai_calls empty_world = []"
    by (simp add: empty_world_def)
  from a b c urgent_never_calls_ai [of _ _ _ empty_world demo_env urgent_request]
  show ?thesis by metis
qed

text \<open>
  Claim C2 says that a HIGH or CRITICAL ticket still goes through the cache and the
  knowledge base, so that one whose text matches an entry is resolved automatically.
  \<open>create_ticket\<close> calls \<open>auto_resolve_ticket\<close> for LOW and MEDIUM tickets only:
  the CRITICAL request below matches the PASSWORD_RESET entry and is assigned to a
  handler, with no resolution.
\<close>

theorem urgent_kb_match_counterexample:
  "determine_priority (req_title urgent_request @ '' '' @ req_description urgent_request)
     = CRITICAL
   \<and> kb_scan knowledge_base
        (lower (req_title urgent_request @ '' '' @ req_description urgent_request))
     = Some password_reset_resolution
   \<and> map_sum id fst (create_ticket demo_env urgent_request empty_world) =
       Inr \<lparr>resp_id = 4242, resp_title = ''URGENT: forgot my password'',
            resp_category = ACCESS, resp_priority = CRITICAL, resp_status = IN_PROGRESS,
            resp_assignee = Some ''bob.wilson@company.com'', resp_resolution = None,
            estimated_resolution_time = 45\<rparr>"
  by code_simp

text \<open>
  Claim C2, amended. \<open>auto_resolve_ticket\<close>, when it is called, consults the cache and
  the knowledge base whatever the priority (only the completion fallback depends on it);
  but intake calls it for LOW and MEDIUM tickets only, so a HIGH or CRITICAL ticket is
  never resolved automatically: it leaves intake IN_PROGRESS with an assignee, without a
  resolution and with the cache untouched, even when its text matches an entry.
\<close>

theorem urgent_skips_auto_resolution:
  "(\<forall>cat conf. classifier e (req_title req @ '' '' @ req_description req) = Inr (cat, conf)
        \<and> determine_priority (req_title req @ '' '' @ req_description req)
             \<in> {HIGH, CRITICAL}
        \<longrightarrow> (\<exists>resp a. create_ticket e req w = Inr (resp, w)
               \<and> resp_status resp = IN_PROGRESS \<and> resp_resolution resp = None
               \<and> resp_assignee resp = Some a))
   \<and> (\<forall>ai now t r.
        \<not> truthy (redis_get w now (category t, take 50 (title t)))
        \<and> kb_scan knowledge_base (lower (title t @ '' '' @ description t)) = Some r
        \<longrightarrow> fst (auto_resolve_ticket ai now t w) = Some r)
   \<and> (\<forall>ai now t.
        truthy (redis_get w now (category t, take 50 (title t)))
        \<longrightarrow> auto_resolve_ticket ai now t w
              = (redis_get w now (category t, take 50 (title t)), w))"
proof -
  let ?txt = "req_title req @ '' '' @ req_description req"
  have a: "\<exists>resp a. create_ticket e req w = Inr (resp, w)
               \<and> resp_status resp = IN_PROGRESS \<and> resp_resolution resp = None
               \<and> resp_assignee resp = Some a"
    if "classifier e ?txt = Inr (cat, conf)"
      "determine_priority ?txt \<in> {HIGH, CRITICAL}" for cat conf
    using process_ticket_urgent [OF that, of w]
    by (auto simp: create_ticket_def)
  have b: "fst (auto_resolve_ticket ai now t w) = Some r"
    if "\<not> truthy (redis_get w now (category t, take 50 (title t)))
        \<and> kb_scan knowledge_base (lower (title t @ '' '' @ description t)) = Some r"
    for ai now t r
    using that by (simp add: auto_resolve_ticket_def Let_def)
  have c: "auto_resolve_ticket ai now t w
              = (redis_get w now (category t, take 50 (title t)), w)"
    if "truthy (redis_get w now (category t, take 50 (title t)))" for ai now t
    using that by (simp add: auto_resolve_ticket_def Let_def)
  from a b c show ?thesis by blast
qed

theorem urgent_skips_auto_resolution_witness:
  "classifier demo_env (req_title urgent_request @ '' '' @ req_description urgent_request)
     = Inr (ACCESS, 9 / 10)
   \<and> determine_priority (req_title urgent_request @ '' '' @ req_description urgent_request)
       \<in> {HIGH, CRITICAL}
   \<and> (\<exists>resp a. create_ticket demo_env urgent_request empty_world = Inr (resp, empty_world)
         \<and> resp_status resp = IN_PROGRESS \<and> resp_resolution resp = None
         \<and> resp_assignee resp = Some a)"
proof -
  have a: "classifier demo_env
      (req_title urgent_request @ '' '' @ req_description urgent_request)
     = Inr (ACCESS, 9 / 10)"
    by (simp add: demo_env_def)
  have b: "determine_priority
      (req_title urgent_request @ '' '' @ req_description urgent_request)
       \<in> {HIGH, CRITICAL}"
    by code_simp
  from a b urgent_skips_auto_resolution [of demo_env urgent_request empty_world]
  show ?thesis by blast
qed

subsection \<open>Intake: the state of a ticket that leaves the pipeline\<close>



subsection \<open>Intake when the classifier fails\<close>




subsection \<open>Completion fallback\<close>

lemma nonessential_has_none: "sublist ''none'' (lower (pre @ ''nonessential'' @ post))"
proof -
  have "sublist ''none'' (lower ''nonessential'')"
    by code_simp
  moreover have "sublist (lower ''nonessential'')
      (lower pre @ lower ''nonessential'' @ lower post)"
    by (rule sublist_appendI)
  ultimately have "sublist ''none'' (lower pre @ lower ''nonessential'' @ lower post)"
    by (rule sublist_order.order.trans)
  then show ?thesis
    by (simp only: lower_append)
qed

text \<open>
  Claim C10. \<open>generate_ai_resolution\<close> drops the text of the completion service, and
  returns no resolution, as soon as its lower-cased form contains "contact it",
  "admin required" or "none"; a text that contains the word "nonessential" is dropped
  for the four letters "none" alone. A text without any of the three is returned as it is.
\<close>

theorem ai_decline_phrases:
  "(\<forall>res p. ai t = Inr res \<and> p \<in> {''contact it'', ''admin required'', ''none''}
        \<and> sublist p (lower res)
        \<longrightarrow> generate_ai_resolution ai t w = (None, w\<lparr>ai_calls := ai_calls w @ [t]\<rparr>))
   \<and> (\<forall>pre post. ai t = Inr (pre @ ''nonessential'' @ post)
        \<longrightarrow> fst (generate_ai_resolution ai t w) = None)
   \<and> (\<forall>res. ai t = Inr res
        \<and> \<not> (\<exists>p \<in> {''contact it'', ''admin required'', ''none''}. sublist p (lower res))
        \<longrightarrow> fst (generate_ai_resolution ai t w) = Some res)"
proof -
  have a: "generate_ai_resolution ai t w = (None, w\<lparr>ai_calls := ai_calls w @ [t]\<rparr>)"
    if "ai t = Inr res \<and> p \<in> {''contact it'', ''admin required'', ''none''}
        \<and> sublist p (lower res)" for res p
  proof -
    from that have "any_in decline_phrases (lower res)"
      unfolding any_in_iff decline_phrases_def by auto
    with that show ?thesis
      by (simp add: generate_ai_resolution_def Let_def)
  qed
  have b: "fst (generate_ai_resolution ai t w) = None"
    if "ai t = Inr (pre @ ''nonessential'' @ post)" for pre post
    using a [of "pre @ ''nonessential'' @ post" "''none''"] that
      nonessential_has_none [of pre post]
    by simp
  have c: "fst (generate_ai_resolution ai t w) = Some res"
    if "ai t = Inr res
        \<and> \<not> (\<exists>p \<in> {''contact it'', ''admin required'', ''none''}. sublist p (lower res))"
    for res
  proof -
    from that have "\<not> any_in decline_phrases (lower res)"
      unfolding any_in_iff decline_phrases_def by auto
    with that show ?thesis
      by (simp add: generate_ai_resolution_def Let_def)
  qed
  from a b c show ?thesis by blast
qed

theorem ai_decline_phrases_witness:
  "completion demo_env crash_ticket
     = Inr ''Disable nonessential startup programs, then reboot.''
   \<and> \<not> any_in [''contact it'', ''admin required'']
         (lower ''Disable nonessential startup programs, then reboot.'')
   \<and> fst (generate_ai_resolution (completion demo_env) crash_ticket empty_world) = None"
proof -
  have a: "completion demo_env crash_ticket
     = Inr (''Disable '' @ ''nonessential'' @ '' startup programs, then reboot.'')"
    by (simp add: demo_env_def)
  have b: "\<not> any_in [''contact it'', ''admin required'']
         (lower ''Disable nonessential startup programs, then reboot.'')"
    by code_simp
  have c: "completion demo_env crash_ticket
     = Inr ''Disable nonessential startup programs, then reboot.''"
    by (simp add: demo_env_def)
  note r = ai_decline_phrases [of "completion demo_env" crash_ticket empty_world,
      THEN conjunct2, THEN conjunct1, rule_format]
  from r [OF a]
  have d: "fst (generate_ai_resolution (completion demo_env) crash_ticket empty_world) = None" .
  from b c d show ?thesis by (intro conjI)
qed

subsection \<open>Assignment\<close>

text \<open>
  Claim C5 says that ties between equal workload ratios are broken by the order of the
  handler identifiers. The sort is stable and nothing else is compared: a tie goes to
  the handler that comes first in the roster. Below, the two handlers have the ratio
  one half, "amy" is the smaller identifier, and "zoe", listed first, is chosen.
\<close>

theorem tie_break_counterexample:
  "suitable_assignees tie_roster (category hardware_ticket)
     = [(''zoe@company.com'', 1 / 2), (''amy@company.com'', 1 / 2)]
   \<and> ''amy@company.com'' < ''zoe@company.com''
   \<and> assign_from tie_roster hardware_ticket = Inr ''zoe@company.com''"
  by code_simp

lemma double_of_half: "double_of_ratio (5 / 10) = 1 / 2"
  by code_simp

lemma double_of_quarter: "double_of_ratio (3 / 12) = 1 / 4"
  by code_simp

text \<open>
  Ratios that are closer than the floats can tell apart tie as well: the second handler
  of \<open>close_roster\<close> has the smaller ratio, both round to the same float, and the
  first handler is chosen.
\<close>

lemma double_of_close_a:
  "double_of_ratio (100000001 / 200000001) = 2251799824944247 / 4503599627370496"
  by code_simp

lemma double_of_close_b:
  "double_of_ratio (100000002 / 200000003) = 2251799824944247 / 4503599627370496"
  by code_simp

lemma close_ratios_tie:
  "suitable_assignees close_roster (category hardware_ticket)
     = [(''A'', 2251799824944247 / 4503599627370496),
        (''B'', 2251799824944247 / 4503599627370496)]
   \<and> (100000002 :: rat) / 200000003 < 100000001 / 200000001
   \<and> assign_from close_roster hardware_ticket = Inr ''A''"
  using double_of_close_a double_of_close_b
  by (simp add: close_roster_def hardware_ticket_def assign_from_def)

text \<open>
  When every maximum is below \<open>2 ^ 26\<close> the floats order the candidates as their
  exact ratios do.
\<close>

lemma assign_from_bounded:
  assumes bound: "\<forall>(h, info) \<in> set team. max_tickets info < 2 ^ 26"
    and ne: "filter (\<lambda>(email, info). category t \<in> set (categories info)
               \<and> current_load info < max_tickets info) team \<noteq> []"
  shows "\<exists>pre h info post.
           filter (\<lambda>(email, info). category t \<in> set (categories info)
               \<and> current_load info < max_tickets info) team = pre @ (h, info) # post
           \<and> assign_from team t = Inr h
           \<and> (\<forall>q \<in> set pre.
                 (of_nat (current_load info) / of_nat (max_tickets info) :: rat)
                   < of_nat (current_load (snd q)) / of_nat (max_tickets (snd q)))
           \<and> (\<forall>q \<in> set post.
                 (of_nat (current_load info) / of_nat (max_tickets info) :: rat)
                   \<le> of_nat (current_load (snd q)) / of_nat (max_tickets (snd q)))"
proof -
  define P where "P = (\<lambda>(email :: string, info :: handler_info).
      category t \<in> set (categories info) \<and> current_load info < max_tickets info)"
  define ratio :: "handler_info \<Rightarrow> rat" where
    "ratio = (\<lambda>info. of_nat (current_load info) / of_nat (max_tickets info))"
  define g where "g = (\<lambda>(email :: string, info :: handler_info).
      (email, double_of_ratio (ratio info)))"
  have s: "suitable_assignees team (category t) = map g (filter P team)"
    by (simp add: suitable_assignees_eq g_def P_def ratio_def)
  from ne have "suitable_assignees team (category t) \<noteq> []"
    by (simp add: s P_def)
  from assign_from_suitable [OF this] obtain pre h r post where
    sp: "map g (filter P team) = pre @ (h, r) # post"
    and a: "assign_from team t = Inr h"
    and l: "\<forall>q \<in> set pre. r < snd q" and u: "\<forall>q \<in> set post. r \<le> snd q"
    unfolding s by blast
  from sp obtain pre' rest where
    f1: "filter P team = pre' @ rest" and p1: "pre = map g pre'"
    and r1: "map g rest = (h, r) # post"
    by (auto simp: map_eq_append_conv)
  from r1 obtain x post' where
    f2: "rest = x # post'" and gx: "g x = (h, r)" and p2: "post = map g post'"
    by (auto simp: map_eq_Cons_conv)
  obtain h' info where x: "x = (h', info)" by (cases x) auto
  with gx have hr: "h' = h" "r = double_of_ratio (ratio info)"
    by (simp_all add: g_def)
  have F: "filter P team = pre' @ (h, info) # post'"
    using f1 f2 x hr by simp
  have ok: "0 < max_tickets (snd q) \<and> max_tickets (snd q) < 2 ^ 26"
    if "q \<in> set (filter P team)" for q
  proof -
    from that have "q \<in> set team" "P q" by simp_all
    with bound show ?thesis
      by (cases q) (auto simp: P_def)
  qed
  have okx: "0 < max_tickets info \<and> max_tickets info < 2 ^ 26"
    using ok [of "(h, info)"] F by simp
  have L: "ratio info < ratio (snd q)" if "q \<in> set pre'" for q
  proof -
    from that F have m: "q \<in> set (filter P team)" by simp
    from that p1 have "g q \<in> set pre" by simp
    with l have "r < snd (g q)" by blast
    then have "double_of_ratio (ratio info) < double_of_ratio (ratio (snd q))"
      by (cases q) (simp add: g_def hr)
    with okx ok [OF m] show ?thesis
      unfolding ratio_def by (simp add: double_of_ratio_less_iff)
  qed
  have U: "ratio info \<le> ratio (snd q)" if "q \<in> set post'" for q
  proof -
    from that F have m: "q \<in> set (filter P team)" by simp
    from that p2 have "g q \<in> set post" by simp
    with u have "r \<le> snd (g q)" by blast
    then have "double_of_ratio (ratio info) \<le> double_of_ratio (ratio (snd q))"
      by (cases q) (simp add: g_def hr)
    with okx ok [OF m] show ?thesis
      unfolding ratio_def by (simp add: double_of_ratio_less_iff)
  qed
  from F a L U have fin: "filter P team = pre' @ (h, info) # post'
      \<and> assign_from team t = Inr h
      \<and> (\<forall>q \<in> set pre'. ratio info < ratio (snd q))
      \<and> (\<forall>q \<in> set post'. ratio info \<le> ratio (snd q))"
    by simp
  note fin' = fin [unfolded P_def ratio_def]
  show ?thesis
    by (rule exI [of _ pre'], rule exI [of _ h], rule exI [of _ info], rule exI [of _ post'])
      (rule fin')
qed

text \<open>
  Claim C5, amended. The candidates are the handlers of the roster, in roster order,
  that cover the category and whose load is strictly below their maximum. When there
  is one, the balancer returns the candidate whose ratio of load to maximum, computed
  as a 64-bit float, is the lowest, and among candidates with that float the first in
  roster order. When every maximum is below \<open>2 ^ 26\<close>, different ratios give
  different floats: the balancer then returns the candidate with the lowest exact
  ratio, and among candidates with that ratio the first in roster order. With A at 5
  of 10 and B at 3 of 12, both covering the category, it returns B, in either order.
\<close>

theorem lowest_ratio_first_in_roster:
  "(suitable_assignees team (category t) \<noteq> [] \<longrightarrow>
      (\<exists>pre h r post. suitable_assignees team (category t) = pre @ (h, r) # post
           \<and> assign_from team t = Inr h
           \<and> (\<forall>q \<in> set pre. r < snd q) \<and> (\<forall>q \<in> set post. r \<le> snd q)))
   \<and> suitable_assignees team (category t) =
        map (\<lambda>(email, info).
               (email,
                double_of_ratio (of_nat (current_load info) / of_nat (max_tickets info))))
          (filter (\<lambda>(email, info). category t \<in> set (categories info)
                     \<and> current_load info < max_tickets info) team)
   \<and> ((\<forall>(h, info) \<in> set team. max_tickets info < 2 ^ 26)
        \<and> filter (\<lambda>(email, info). category t \<in> set (categories info)
                     \<and> current_load info < max_tickets info) team \<noteq> []
      \<longrightarrow> (\<exists>pre h info post.
             filter (\<lambda>(email, info). category t \<in> set (categories info)
                       \<and> current_load info < max_tickets info) team
               = pre @ (h, info) # post
             \<and> assign_from team t = Inr h
             \<and> (\<forall>q \<in> set pre.
                   (of_nat (current_load info) / of_nat (max_tickets info) :: rat)
                     < of_nat (current_load (snd q)) / of_nat (max_tickets (snd q)))
             \<and> (\<forall>q \<in> set post.
                   (of_nat (current_load info) / of_nat (max_tickets info) :: rat)
                     \<le> of_nat (current_load (snd q)) / of_nat (max_tickets (snd q)))))
   \<and> (\<forall>a b ca cb. category t \<in> set ca \<and> category t \<in> set cb \<longrightarrow>
        assign_from
          [(a, \<lparr>categories = ca, max_tickets = 10, current_load = 5\<rparr>),
           (b, \<lparr>categories = cb, max_tickets = 12, current_load = 3\<rparr>)] t = Inr b
        \<and> assign_from
          [(b, \<lparr>categories = cb, max_tickets = 12, current_load = 3\<rparr>),
           (a, \<lparr>categories = ca, max_tickets = 10, current_load = 5\<rparr>)] t = Inr b)"
proof (intro conjI)
  show "suitable_assignees team (category t) \<noteq> [] \<longrightarrow>
      (\<exists>pre h r post. suitable_assignees team (category t) = pre @ (h, r) # post
           \<and> assign_from team t = Inr h
           \<and> (\<forall>q \<in> set pre. r < snd q) \<and> (\<forall>q \<in> set post. r \<le> snd q))"
    using assign_from_suitable by blast
next
  show "suitable_assignees team (category t) =
        map (\<lambda>(email, info).
               (email,
                double_of_ratio (of_nat (current_load info) / of_nat (max_tickets info))))
          (filter (\<lambda>(email, info). category t \<in> set (categories info)
                     \<and> current_load info < max_tickets info) team)"
    by (rule suitable_assignees_eq)
next
  show "(\<forall>(h, info) \<in> set team. max_tickets info < 2 ^ 26)
        \<and> filter (\<lambda>(email, info). category t \<in> set (categories info)
                     \<and> current_load info < max_tickets info) team \<noteq> []
      \<longrightarrow> (\<exists>pre h info post.
             filter (\<lambda>(email, info). category t \<in> set (categories info)
                       \<and> current_load info < max_tickets info) team
               = pre @ (h, info) # post
             \<and> assign_from team t = Inr h
             \<and> (\<forall>q \<in> set pre.
                   (of_nat (current_load info) / of_nat (max_tickets info) :: rat)
                     < of_nat (current_load (snd q)) / of_nat (max_tickets (snd q)))
             \<and> (\<forall>q \<in> set post.
                   (of_nat (current_load info) / of_nat (max_tickets info) :: rat)
                     \<le> of_nat (current_load (snd q)) / of_nat (max_tickets (snd q))))"
  proof
    assume h: "(\<forall>(h, info) \<in> set team. max_tickets info < 2 ^ 26)
        \<and> filter (\<lambda>(email, info). category t \<in> set (categories info)
                     \<and> current_load info < max_tickets info) team \<noteq> []"
    show "\<exists>pre h info post.
             filter (\<lambda>(email, info). category t \<in> set (categories info)
                       \<and> current_load info < max_tickets info) team
               = pre @ (h, info) # post
             \<and> assign_from team t = Inr h
             \<and> (\<forall>q \<in> set pre.
                   (of_nat (current_load info) / of_nat (max_tickets info) :: rat)
                     < of_nat (current_load (snd q)) / of_nat (max_tickets (snd q)))
             \<and> (\<forall>q \<in> set post.
                   (of_nat (current_load info) / of_nat (max_tickets info) :: rat)
                     \<le> of_nat (current_load (snd q)) / of_nat (max_tickets (snd q)))"
      by (rule assign_from_bounded [OF conjunct1 [OF h] conjunct2 [OF h]])
  qed
next
  show "\<forall>a b ca cb. category t \<in> set ca \<and> category t \<in> set cb \<longrightarrow>
        assign_from
          [(a, \<lparr>categories = ca, max_tickets = 10, current_load = 5\<rparr>),
           (b, \<lparr>categories = cb, max_tickets = 12, current_load = 3\<rparr>)] t = Inr b
        \<and> assign_from
          [(b, \<lparr>categories = cb, max_tickets = 12, current_load = 3\<rparr>),
           (a, \<lparr>categories = ca, max_tickets = 10, current_load = 5\<rparr>)] t = Inr b"
    using double_of_half double_of_quarter
    by (simp add: assign_from_def)
qed

theorem lowest_ratio_first_in_roster_witness:
  "category hardware_ticket \<in> set [HARDWARE, NETWORK]
   \<and> category hardware_ticket \<in> set [HARDWARE]
   \<and> assign_from
        [(''A'', \<lparr>categories = [HARDWARE, NETWORK], max_tickets = 10, current_load = 5\<rparr>),
         (''B'', \<lparr>categories = [HARDWARE], max_tickets = 12, current_load = 3\<rparr>)]
        hardware_ticket = Inr ''B''
   \<and> list_all (\<lambda>(h, info). max_tickets info < 2 ^ 26) team_skills
   \<and> filter (\<lambda>(email, info). category hardware_ticket \<in> set (categories info)
               \<and> current_load info < max_tickets info) team_skills \<noteq> []
   \<and> (\<exists>pre h info post.
         filter (\<lambda>(email, info). category hardware_ticket \<in> set (categories info)
                   \<and> current_load info < max_tickets info) team_skills
           = pre @ (h, info) # post
         \<and> assign_from team_skills hardware_ticket = Inr h
         \<and> (\<forall>q \<in> set pre.
               (of_nat (current_load info) / of_nat (max_tickets info) :: rat)
                 < of_nat (current_load (snd q)) / of_nat (max_tickets (snd q)))
         \<and> (\<forall>q \<in> set post.
               (of_nat (current_load info) / of_nat (max_tickets info) :: rat)
                 \<le> of_nat (current_load (snd q)) / of_nat (max_tickets (snd q))))"
proof -
  have a: "category hardware_ticket \<in> set [HARDWARE, NETWORK]
      \<and> category hardware_ticket \<in> set [HARDWARE]"
    by (simp add: hardware_ticket_def)
  note r = lowest_ratio_first_in_roster [of _ hardware_ticket,
      THEN conjunct2, THEN conjunct2, THEN conjunct2, rule_format, OF a, THEN conjunct1]
  have b: "assign_from
        [(''A'', \<lparr>categories = [HARDWARE, NETWORK], max_tickets = 10, current_load = 5\<rparr>),
         (''B'', \<lparr>categories = [HARDWARE], max_tickets = 12, current_load = 3\<rparr>)]
        hardware_ticket = Inr ''B''"
    using a r [of "''A''" "''B''"] by simp
  have c: "list_all (\<lambda>(h, info). max_tickets info < 2 ^ 26) team_skills"
    by (simp add: team_skills_def)
  then have c': "\<forall>(h, info) \<in> set team_skills. max_tickets info < 2 ^ 26"
    by (simp add: list_all_iff)
  have d: "filter (\<lambda>(email, info). category hardware_ticket \<in> set (categories info)
               \<and> current_load info < max_tickets info) team_skills \<noteq> []"
    by (simp add: team_skills_def hardware_ticket_def)
  note s = lowest_ratio_first_in_roster [of team_skills hardware_ticket,
      THEN conjunct2, THEN conjunct2, THEN conjunct1, rule_format, OF conjI [OF c' d]]
  from a [THEN conjunct1] a [THEN conjunct2] b c d s show ?thesis by (intro conjI)
qed

text \<open>
  Claim C6. When the roster is not empty and no handler both covers the category and
  has load strictly below its maximum, the balancer returns a handler whose load is the
  smallest of the whole roster (the first such in roster order), whatever the category.
  So assignment over a non-empty roster always returns a handler of the roster, never an
  error, and \<open>assign_ticket\<close>, over the roster of the source, always does.
\<close>

theorem fallback_least_loaded:
  "(team \<noteq> [] \<and> (\<forall>(h, info) \<in> set team.
        \<not> (category t \<in> set (categories info) \<and> current_load info < max_tickets info))
      \<longrightarrow> (\<exists>pre h info post. team = pre @ (h, info) # post
             \<and> assign_from team t = Inr h
             \<and> (\<forall>q \<in> set pre. current_load info < current_load (snd q))
             \<and> (\<forall>q \<in> set post. current_load info \<le> current_load (snd q))))
   \<and> (team \<noteq> [] \<longrightarrow> (\<exists>h. assign_from team t = Inr h \<and> h \<in> fst ` set team))
   \<and> (\<exists>h. assign_ticket t = Inr h \<and> h \<in> fst ` set team_skills)"
proof -
  have a: "\<exists>pre h info post. team = pre @ (h, info) # post
             \<and> assign_from team t = Inr h
             \<and> (\<forall>q \<in> set pre. current_load info < current_load (snd q))
             \<and> (\<forall>q \<in> set post. current_load info \<le> current_load (snd q))"
    if "team \<noteq> [] \<and> (\<forall>(h, info) \<in> set team.
        \<not> (category t \<in> set (categories info) \<and> current_load info < max_tickets info))"
  proof -
    from that have "filter (\<lambda>(email, info). category t \<in> set (categories info)
                     \<and> current_load info < max_tickets info) team = []"
      by (auto simp: filter_empty_conv)
    then have "suitable_assignees team (category t) = []"
      by (simp add: suitable_assignees_eq)
    with that assign_from_fallback show ?thesis by blast
  qed
  have b: "team \<noteq> [] \<longrightarrow> (\<exists>h. assign_from team t = Inr h \<and> h \<in> fst ` set team)"
    using assign_from_total by blast
  have "team_skills \<noteq> []" by (simp add: team_skills_def)
  from assign_from_total [OF this]
  have c: "\<exists>h. assign_ticket t = Inr h \<and> h \<in> fst ` set team_skills"
    by (simp add: assign_ticket_def)
  from a b c show ?thesis by blast
qed

theorem fallback_least_loaded_witness:
  "team_skills \<noteq> []
   \<and> list_all (\<lambda>(h, info). \<not> (category other_ticket \<in> set (categories info)
         \<and> current_load info < max_tickets info)) team_skills
   \<and> (\<exists>pre h info post. team_skills = pre @ (h, info) # post
         \<and> assign_from team_skills other_ticket = Inr h
         \<and> (\<forall>q \<in> set pre. current_load info < current_load (snd q))
         \<and> (\<forall>q \<in> set post. current_load info \<le> current_load (snd q)))
   \<and> assign_from team_skills other_ticket = Inr ''jane.smith@company.com''"
proof -
  have a: "team_skills \<noteq> []" by (simp add: team_skills_def)
  have b: "list_all (\<lambda>(h, info). \<not> (category other_ticket \<in> set (categories info)
         \<and> current_load info < max_tickets info)) team_skills"
    by code_simp
  have c: "assign_from team_skills other_ticket = Inr ''jane.smith@company.com''"
    by code_simp
  from b have b': "\<forall>(h, info) \<in> set team_skills.
        \<not> (category other_ticket \<in> set (categories info)
           \<and> current_load info < max_tickets info)"
    by (simp add: list_all_iff)
  note r = fallback_least_loaded [of team_skills other_ticket, THEN conjunct1, rule_format]
  from r [OF conjI [OF a b']] a b c show ?thesis by (intro conjI)
qed

subsection \<open>Estimate\<close>

lemma floor_three_halves: "nat \<lfloor>of_nat b * (3 / 2 :: rat)\<rfloor> = (3 * b) div 2"
proof -
  have "of_nat b * (3 / 2 :: rat) = of_nat (3 * b) / of_nat 2"
    by simp
  then have "\<lfloor>of_nat b * (3 / 2 :: rat)\<rfloor> = int ((3 * b) div 2)"
    by (simp only: floor_divide_of_nat_eq)
  then show ?thesis by simp
qed

lemma floor_four_fifths: "nat \<lfloor>of_nat b * (4 / 5 :: rat)\<rfloor> = (4 * b) div 5"
proof -
  have "of_nat b * (4 / 5 :: rat) = of_nat (4 * b) / of_nat 5"
    by simp
  then have "\<lfloor>of_nat b * (4 / 5 :: rat)\<rfloor> = int ((4 * b) div 5)"
    by (simp only: floor_divide_of_nat_eq)
  then show ?thesis by simp
qed

lemma base_times_other: "map_of base_times (OTHER, p) = None"
  by (simp add: base_times_def)

text \<open>
  Claim C7 gives the multiplier 1.5 for the hours of the half-open interval from 9 to 17,
  so that hour 17 would get 0.8. The test of the source is \<^verbatim>\<open>9 <= current_hour <= 17\<close>:
  at hour 17 a SOFTWARE ticket of LOW priority (base 360) is estimated at 540 minutes,
  where the claim gives 288.
\<close>

theorem estimate_hour_17_counterexample:
  "predict_resolution_time 17 crash_ticket = 540
   \<and> estimate_half_open 17 crash_ticket = 288"
  by code_simp

text \<open>
  Claim C7, amended. The estimate is the base time of the table for the category and the
  priority, 180 minutes when the pair is absent (as for the category OTHER), multiplied
  by 1.5 when the hour lies in the closed interval from 9 to 17 and by 0.8 otherwise,
  and truncated: three halves, respectively four fifths, in integer division. It agrees
  with the claimed estimate at every hour but 17, which is treated as hour 9 is.
\<close>

theorem estimate_closed_interval:
  "predict_resolution_time h t =
     (let b = (case map_of base_times (category t, priority t) of
                 Some b \<Rightarrow> b | None \<Rightarrow> 180)
      in if 9 \<le> h \<and> h \<le> 17 then (3 * b) div 2 else (4 * b) div 5)
   \<and> (category t = OTHER \<longrightarrow>
        predict_resolution_time h t = (if 9 \<le> h \<and> h \<le> 17 then 270 else 144))
   \<and> (h \<noteq> 17 \<longrightarrow> predict_resolution_time h t = estimate_half_open h t)
   \<and> predict_resolution_time 17 t = predict_resolution_time 9 t"
proof -
  have a: "predict_resolution_time h t =
     (let b = (case map_of base_times (category t, priority t) of
                 Some b \<Rightarrow> b | None \<Rightarrow> 180)
      in if 9 \<le> h \<and> h \<le> 17 then (3 * b) div 2 else (4 * b) div 5)" for h
    by (simp only: predict_resolution_time_def Let_def floor_three_halves
        floor_four_fifths if_distrib [of "\<lambda>m. nat \<lfloor>of_nat _ * m\<rfloor>"])
  have b: "predict_resolution_time h t = (if 9 \<le> h \<and> h \<le> 17 then 270 else 144)"
    if "category t = OTHER"
    using that by (simp add: a base_times_other)
  have c: "predict_resolution_time h t = estimate_half_open h t" if "h \<noteq> 17"
    using that
    by (auto simp: predict_resolution_time_def estimate_half_open_def Let_def)
  have d: "predict_resolution_time 17 t = predict_resolution_time 9 t"
    by (simp add: a)
  from a [of h] b c d show ?thesis by blast
qed

theorem estimate_closed_interval_witness:
  "category other_ticket = OTHER
   \<and> predict_resolution_time 17 other_ticket = 270
   \<and> predict_resolution_time 18 other_ticket = 144
   \<and> (18::nat) \<noteq> 17
   \<and> predict_resolution_time 18 other_ticket = estimate_half_open 18 other_ticket"
proof -
  have a: "category other_ticket = OTHER"
    by (simp add: other_ticket_def)
  note r = estimate_closed_interval [of _ other_ticket, THEN conjunct2, THEN conjunct1,
      rule_format, OF a]
  have b: "predict_resolution_time 17 other_ticket = 270"
    using r [of 17] by simp
  have c: "predict_resolution_time 18 other_ticket = 144"
    using r [of 18] by simp
  have d: "(18::nat) \<noteq> 17" by simp
  note s = estimate_closed_interval [of 18 other_ticket, THEN conjunct2, THEN conjunct2,
      THEN conjunct1, rule_format, OF d]
  from a b c d s show ?thesis by (intro conjI)
qed

end
